theory Spec2Isabelle
  imports Complex_Main "HOL-Library.Word" "HOL-Library.Monad_Syntax" "HOL-Library.Multiset"
begin

section \<open>Boards and features\<close>

text \<open>
  Modelled from the spec: the board type of \<^verbatim>\<open>board.h\<close> is not among the sources.
  The spec's Grid State is a fixed array of 16 cells, each holding an unsigned rank
  (0 is the empty cell, n stands for the tile 2^n). A cell is taken as an unsigned
  32-bit integer, a board as the list of its 16 cells in row-major order, and
  \<open>cell_at b i\<close> is the source's \<^verbatim>\<open>b(i)\<close>; the code reads the positions 0 to 15 only.
\<close>

type_synonym cell = "32 word"
type_synonym board = "cell list"

definition cell_at :: "board \<Rightarrow> nat \<Rightarrow> cell" where
  "cell_at b i = b ! i"

definition rank :: "board \<Rightarrow> nat \<Rightarrow> nat" where
  "rank b i = unat (cell_at b i)"

text \<open>
  \<^verbatim>\<open>int extract_feature(const board& after, int a, int b, int c, int d)\<close>: the sum is
  computed on cells, so it wraps at 32 bits, and is returned as an \<^verbatim>\<open>int\<close>.
\<close>

definition extract_feature :: "board \<Rightarrow> nat \<Rightarrow> nat \<Rightarrow> nat \<Rightarrow> nat \<Rightarrow> int" where
  "extract_feature after a b c d =
     sint (cell_at after a * 25 * 25 * 25 + cell_at after b * 25 * 25 + cell_at after c * 25 + cell_at after d)"

section \<open>Weight tables and the value function\<close>

text \<open>
  \<^verbatim>\<open>std::vector<weight> net\<close>: a weight table (\<^verbatim>\<open>weight.h\<close> is not among the
  sources) is a flat array of \<^verbatim>\<open>float\<close> entries, indexed from 0. A \<^verbatim>\<open>float\<close> is
  idealised as a real number: rounding, infinities and NaN are outside the model.
  Indexing a C++ vector out of range is undefined behaviour; the model makes it the
  result \<open>None\<close>, which every caller propagates.
\<close>

type_synonym weight = "real list"

definition table_get :: "weight list \<Rightarrow> nat \<Rightarrow> int \<Rightarrow> real option" where
  "table_get net k i =
     (if k < length net \<and> 0 \<le> i \<and> nat i < length (net ! k)
      then Some (net ! k ! nat i) else None)"

definition table_add :: "weight list \<Rightarrow> nat \<Rightarrow> int \<Rightarrow> real \<Rightarrow> weight list option" where
  "table_add net k i x =
     (if k < length net \<and> 0 \<le> i \<and> nat i < length (net ! k)
      then Some (net[k := (net ! k)[nat i := net ! k ! nat i + x]]) else None)"

definition estimate_value :: "weight list \<Rightarrow> board \<Rightarrow> real option" where
  "estimate_value net after = do {
     v0 \<leftarrow> table_get net 0 (extract_feature after 0 1 2 3);
     v1 \<leftarrow> table_get net 1 (extract_feature after 4 5 6 7);
     v2 \<leftarrow> table_get net 2 (extract_feature after 8 9 10 11);
     v3 \<leftarrow> table_get net 3 (extract_feature after 12 13 14 15);
     v4 \<leftarrow> table_get net 4 (extract_feature after 0 4 8 12);
     v5 \<leftarrow> table_get net 5 (extract_feature after 1 5 9 13);
     v6 \<leftarrow> table_get net 6 (extract_feature after 2 6 10 14);
     v7 \<leftarrow> table_get net 7 (extract_feature after 3 7 11 15);
     Some (0 + v0 + v1 + v2 + v3 + v4 + v5 + v6 + v7)
   }"

definition adjust_value :: "real \<Rightarrow> weight list \<Rightarrow> board \<Rightarrow> real \<Rightarrow> weight list option" where
  "adjust_value alpha net after target = do {
     current \<leftarrow> estimate_value net after;
     let error = target - current;
     let adjust = alpha * error;
     n0 \<leftarrow> table_add net 0 (extract_feature after 0 1 2 3) adjust;
     n1 \<leftarrow> table_add n0 1 (extract_feature after 4 5 6 7) adjust;
     n2 \<leftarrow> table_add n1 2 (extract_feature after 8 9 10 11) adjust;
     n3 \<leftarrow> table_add n2 3 (extract_feature after 12 13 14 15) adjust;
     n4 \<leftarrow> table_add n3 4 (extract_feature after 0 4 8 12) adjust;
     n5 \<leftarrow> table_add n4 5 (extract_feature after 1 5 9 13) adjust;
     n6 \<leftarrow> table_add n5 6 (extract_feature after 2 6 10 14) adjust;
     table_add n6 7 (extract_feature after 3 7 11 15) adjust
   }"

text \<open>
  \<^verbatim>\<open>init_weights\<close> appends eight tables of \<open>25 * 25 * 25 * 25\<close> entries; a table
  created with a size holds zeros (the spec's Weight Table is initialised to 0).
\<close>

definition init_weights :: "weight list \<Rightarrow> weight list" where
  "init_weights net = net @
     [replicate (25 * 25 * 25 * 25) 0, replicate (25 * 25 * 25 * 25) 0,
      replicate (25 * 25 * 25 * 25) 0, replicate (25 * 25 * 25 * 25) 0,
      replicate (25 * 25 * 25 * 25) 0, replicate (25 * 25 * 25 * 25) 0,
      replicate (25 * 25 * 25 * 25) 0, replicate (25 * 25 * 25 * 25) 0]"

section \<open>The move engine\<close>

text \<open>
  Modelled from the spec: \<^verbatim>\<open>board::slide\<close> (\<^verbatim>\<open>board.h\<close>) is not among the sources.
  The spec's Move Engine slides the four lines of the board toward index 0:
  compress (drop the empty cells), merge equal neighbours left to right into one
  cell of rank + 1 that is not merged again, adding \<open>2 ^ (rank + 1)\<close> to the reward,
  and compress again. Right and down are the reflections of left and up. The move is
  illegal, with reward \<open>-1\<close>, iff the board does not change. The spec does not number
  the directions; they are taken as 0 up, 1 right, 2 down, 3 left.
\<close>

fun merge_line :: "cell list \<Rightarrow> cell list \<times> int" where
  "merge_line (x # y # xs) =
     (if x = y then (let (l, s) = merge_line xs in ((x + 1) # l, 2 ^ unat (x + 1) + s))
      else (let (l, s) = merge_line (y # xs) in (x # l, s)))"
| "merge_line xs = (xs, 0)"

definition slide_line :: "cell list \<Rightarrow> cell list \<times> int" where
  "slide_line line =
     (let (l, s) = merge_line (filter (\<lambda>c. c \<noteq> 0) line)
      in (l @ replicate (length line - length l) 0, s))"

definition rows :: "board \<Rightarrow> cell list list" where
  "rows b = map (\<lambda>r. map (\<lambda>c. cell_at b (4 * r + c)) [0..<4]) [0..<4]"

definition columns :: "board \<Rightarrow> cell list list" where
  "columns b = map (\<lambda>c. map (\<lambda>r. cell_at b (4 * r + c)) [0..<4]) [0..<4]"

definition of_rows :: "cell list list \<Rightarrow> board" where
  "of_rows ls = concat ls"

definition of_columns :: "cell list list \<Rightarrow> board" where
  "of_columns ls = concat (map (\<lambda>r. map (\<lambda>l. l ! r) ls) [0..<4])"

definition slide_left :: "board \<Rightarrow> board \<times> int" where
  "slide_left b = (let rs = map slide_line (rows b)
                   in (of_rows (map fst rs), sum_list (map snd rs)))"

definition slide_right :: "board \<Rightarrow> board \<times> int" where
  "slide_right b = (let rs = map (\<lambda>l. slide_line (rev l)) (rows b)
                    in (of_rows (map (\<lambda>r. rev (fst r)) rs), sum_list (map snd rs)))"

definition slide_up :: "board \<Rightarrow> board \<times> int" where
  "slide_up b = (let rs = map slide_line (columns b)
                 in (of_columns (map fst rs), sum_list (map snd rs)))"

definition slide_down :: "board \<Rightarrow> board \<times> int" where
  "slide_down b = (let rs = map (\<lambda>l. slide_line (rev l)) (columns b)
                   in (of_columns (map (\<lambda>r. rev (fst r)) rs), sum_list (map snd rs)))"

text \<open>\<open>slide op b\<close> is the pair of the value returned and the board left behind.\<close>

definition slide :: "int \<Rightarrow> board \<Rightarrow> int \<times> board" where
  "slide op b =
     (let (b', s) = (if op = 0 then slide_up b else if op = 1 then slide_right b
                     else if op = 2 then slide_down b else if op = 3 then slide_left b
                     else (b, 0))
      in if b' = b then (-1, b) else (s, b'))"

section \<open>The learning player\<close>

text \<open>
  Modelled from the spec: \<^verbatim>\<open>action.h\<close> is not among the sources. An action is a
  tagged value: a slide with its direction, a placement with its position and tile
  rank, or no action (\<^verbatim>\<open>action()\<close>). \<open>Slide op\<close> is \<^verbatim>\<open>action::slide(op)\<close> and
  \<open>Place pos tile\<close> is \<^verbatim>\<open>action::place(pos, tile)\<close>.
\<close>

datatype action = Slide int | Place nat cell | No_action

record step =
  reward :: int
  after :: board

record player =
  meta :: "string \<rightharpoonup> string"
  net :: "weight list"
  alpha :: real
  history :: "step list"

text \<open>
  The conversion of a \<^verbatim>\<open>float\<close> to an \<^verbatim>\<open>int\<close> drops the fraction; it is undefined
  when the result does not fit, as is the overflow of a signed addition. Both are
  \<open>None\<close> in the model.
\<close>

definition float_to_int :: "real \<Rightarrow> int option" where
  "float_to_int x =
     (let t = (if 0 \<le> x then \<lfloor>x\<rfloor> else \<lceil>x\<rceil>)
      in if - (2 ^ 31) \<le> t \<and> t < 2 ^ 31 then Some t else None)"

definition int_add :: "int \<Rightarrow> int \<Rightarrow> int option" where
  "int_add a b = (if - (2 ^ 31) \<le> a + b \<and> a + b < 2 ^ 31 then Some (a + b) else None)"

text \<open>
  The loop of \<^verbatim>\<open>take_action\<close> over the directions still to try, on the four locals
  \<^verbatim>\<open>best_op\<close>, \<^verbatim>\<open>best_reward\<close>, \<^verbatim>\<open>best_value\<close> (an \<^verbatim>\<open>int\<close>) and \<^verbatim>\<open>best_after\<close>.
\<close>

fun try_ops :: "weight list \<Rightarrow> board \<Rightarrow> int list \<Rightarrow> int \<times> int \<times> int \<times> board
                \<Rightarrow> (int \<times> int \<times> int \<times> board) option" where
  "try_ops ws before [] best = Some best"
| "try_ops ws before (op # ops) (best_op, best_reward, best_value, best_after) =
     (let (r, a) = slide op before in
      if r = -1 then try_ops ws before ops (best_op, best_reward, best_value, best_after)
      else do {
        v \<leftarrow> estimate_value ws a;
        bound \<leftarrow> int_add best_reward best_value;
        if real_of_int r + v > real_of_int bound
        then do {
          truncated \<leftarrow> float_to_int v;
          try_ops ws before ops (op, r, truncated, a)
        }
        else try_ops ws before ops (best_op, best_reward, best_value, best_after)
      })"

text \<open>
  \<^verbatim>\<open>take_action\<close> returns the action and leaves the player behind; the default
  \<^verbatim>\<open>board best_after\<close> is taken as the empty board.
\<close>

definition take_action :: "player \<Rightarrow> board \<Rightarrow> (action \<times> player) option" where
  "take_action p before = do {
     (best_op, best_reward, best_value, best_after) \<leftarrow>
        try_ops (net p) before [0, 1, 2, 3] (-1, -1, -99999, replicate 16 0);
     Some (Slide best_op,
           if best_op \<noteq> -1
           then p\<lparr>history := history p @ [\<lparr>reward = best_reward, after = best_after\<rparr>]\<rparr>
           else p)
   }"

definition open_episode :: "player \<Rightarrow> player" where
  "open_episode p = p\<lparr>history := []\<rparr>"

text \<open>
  The loop of \<^verbatim>\<open>close_episode\<close>, \<^verbatim>\<open>for (int t = history.size() - 2; t >= 0; t--)\<close>:
  the target is computed on the weights of the moment, then the adjustment is made.
  The history is taken to be short enough for its size to fit the \<^verbatim>\<open>int\<close>.
\<close>

function td_loop :: "real \<Rightarrow> step list \<Rightarrow> int \<Rightarrow> weight list \<Rightarrow> weight list option" where
  "td_loop a h t ws =
     (if t \<ge> 0 then do {
        v \<leftarrow> estimate_value ws (after (h ! nat (t + 1)));
        ws' \<leftarrow> adjust_value a ws (after (h ! nat t)) (real_of_int (reward (h ! nat (t + 1))) + v);
        td_loop a h (t - 1) ws'
      }
      else Some ws)"
  by pat_completeness auto
termination
  by (relation "measure (\<lambda>(a, h, t, ws). nat (t + 1))") auto

declare td_loop.simps [simp del]

definition close_episode :: "player \<Rightarrow> player option" where
  "close_episode p =
     (if history p = [] then Some p
      else if alpha p = 0 then Some p
      else do {
        ws \<leftarrow> adjust_value (alpha p) (net p) (after (history p ! (length (history p) - 1))) 0;
        ws' \<leftarrow> td_loop (alpha p) (history p) (int (length (history p)) - 2) ws;
        Some (p\<lparr>net := ws'\<rparr>)
      })"

section \<open>Weight files and construction\<close>

text \<open>
  Modelled from the spec: the stream operators of \<^verbatim>\<open>weight.h\<close> are not among the
  sources. A weight file holds a 4-byte unsigned table count followed by the tables.
  The file system gives the files that open for reading, with what they hold, and
  says which paths open for writing. A run of a function that can end the process
  has an outcome: the exit status, an exception that nothing catches, or the
  result.
\<close>

record weight_file =
  table_count :: "32 word"
  tables :: "weight list"

record filesystem =
  files :: "string \<rightharpoonup> weight_file"
  writable :: "string \<Rightarrow> bool"

datatype 'a outcome = Exit int | Throw | Return 'a

text \<open>
  \<^verbatim>\<open>load_weights\<close>: \<^verbatim>\<open>std::exit(-1)\<close> when the stream is not open; otherwise the
  net is resized to the count read and each of its tables is read in turn (a table
  the file does not hold stays as the resize left it).
\<close>

definition load_weights :: "filesystem \<Rightarrow> string \<Rightarrow> weight list \<Rightarrow> weight list outcome" where
  "load_weights fs path ws =
     (case files fs path of
        None \<Rightarrow> Exit (-1)
      | Some f \<Rightarrow>
          (let size = unat (table_count f);
               resized = take size ws @ replicate (size - length ws) []
           in Return (map (\<lambda>i. if i < length (tables f) then tables f ! i else resized ! i)
                        [0..<size])))"

definition save_weights :: "filesystem \<Rightarrow> string \<Rightarrow> weight list \<Rightarrow> filesystem outcome" where
  "save_weights fs path ws =
     (if \<not> writable fs path then Exit (-1)
      else Return (fs\<lparr>files := (files fs)(path \<mapsto>
                     \<lparr>table_count = word_of_nat (length ws), tables = ws\<rparr>)\<rparr>))"

text \<open>
  The constructor of \<^verbatim>\<open>agent\<close> reads its argument word by word (\<^verbatim>\<open>ss >> pair\<close>) and
  stores each word under the text before its first \<^verbatim>\<open>=\<close>, with the text after it as
  the value. A word without \<^verbatim>\<open>=\<close> is its own key and value: \<^verbatim>\<open>find\<close> gives
  \<^verbatim>\<open>npos\<close>, and \<^verbatim>\<open>npos + 1\<close> is 0.
\<close>

definition isspace :: "char \<Rightarrow> bool" where
  "isspace c \<longleftrightarrow> c \<in> set [CHR '' '', CHR 0x09, CHR 0x0A, CHR 0x0B, CHR 0x0C, CHR 0x0D]"

fun split_words :: "string \<Rightarrow> string \<Rightarrow> string list" where
  "split_words cur [] = (if cur = [] then [] else [cur])"
| "split_words cur (c # cs) =
     (if isspace c then (if cur = [] then split_words [] cs else cur # split_words [] cs)
      else split_words (cur @ [c]) cs)"

definition key_of :: "string \<Rightarrow> string" where
  "key_of pair = takeWhile (\<lambda>c. c \<noteq> CHR ''='') pair"

definition value_of :: "string \<Rightarrow> string" where
  "value_of pair =
     (if CHR ''='' \<in> set pair then tl (dropWhile (\<lambda>c. c \<noteq> CHR ''='') pair) else pair)"

definition agent :: "string \<Rightarrow> (string \<rightharpoonup> string)" where
  "agent args =
     foldl (\<lambda>m pair. m(key_of pair \<mapsto> value_of pair)) Map.empty
       (split_words [] (''name=unknown role=unknown '' @ args))"

text \<open>
  The constructor of \<^verbatim>\<open>player\<close>. \<open>stod\<close> stands for \<^verbatim>\<open>std::stod\<close>, which throws
  when the text is no number; the exception is not caught.
\<close>

definition player_new :: "(string \<Rightarrow> real option) \<Rightarrow> filesystem \<Rightarrow> string \<Rightarrow> player outcome" where
  "player_new stod fs args =
     (let m = agent (''name=dummy role=player '' @ args);
          ws = (case m ''init'' of None \<Rightarrow> [] | Some info \<Rightarrow> init_weights [])
      in case (case m ''load'' of None \<Rightarrow> Return ws | Some path \<Rightarrow> load_weights fs path ws) of
           Exit status \<Rightarrow> Exit status
         | Throw \<Rightarrow> Throw
         | Return ws' \<Rightarrow>
             (case m ''alpha'' of
                None \<Rightarrow> Return \<lparr>meta = m, net = ws', alpha = 0, history = []\<rparr>
              | Some text \<Rightarrow>
                  (case stod text of
                     None \<Rightarrow> Throw
                   | Some a \<Rightarrow> Return \<lparr>meta = m, net = ws', alpha = a, history = []\<rparr>)))"

section \<open>The random environment\<close>

text \<open>
  \<^verbatim>\<open>rndenv::take_action\<close> shuffles its array of the 16 positions and places a tile
  on the first position of the array that is empty. The random engine is outside
  the model: the array as \<^verbatim>\<open>std::shuffle\<close> leaves it and the number that
  \<^verbatim>\<open>popup(engine)\<close> draws from 0 to 9 are inputs.
\<close>

record rndenv =
  space :: "nat list"

definition rndenv_new :: rndenv where
  "rndenv_new = \<lparr>space = [0, 1, 2, 3, 4, 5, 6, 7, 8, 9, 10, 11, 12, 13, 14, 15]\<rparr>"

fun place_first :: "board \<Rightarrow> int \<Rightarrow> nat list \<Rightarrow> action" where
  "place_first b draw [] = No_action"
| "place_first b draw (pos # rest) =
     (if cell_at b pos \<noteq> 0 then place_first b draw rest
      else Place pos (if draw \<noteq> 0 then 1 else 2))"

definition rndenv_take_action :: "nat list \<Rightarrow> int \<Rightarrow> rndenv \<Rightarrow> board \<Rightarrow> action \<times> rndenv" where
  "rndenv_take_action shuffled draw env b = (place_first b draw shuffled, env\<lparr>space := shuffled\<rparr>)"

section \<open>Notions of the specification\<close>

text \<open>The eight tuple patterns (four rows, four columns) and their feature indices.\<close>

definition features :: "board \<Rightarrow> int list" where
  "features b =
     [extract_feature b 0 1 2 3, extract_feature b 4 5 6 7,
      extract_feature b 8 9 10 11, extract_feature b 12 13 14 15,
      extract_feature b 0 4 8 12, extract_feature b 1 5 9 13,
      extract_feature b 2 6 10 14, extract_feature b 3 7 11 15]"

text \<open>A board of 16 cells with every rank below 25; a net of 8 tables of \<open>25 ^ 4\<close> entries.\<close>

definition board_ok :: "board \<Rightarrow> bool" where
  "board_ok b \<longleftrightarrow> length b = 16 \<and> list_all (\<lambda>c. unat c < 25) b"

definition net_ok :: "weight list \<Rightarrow> bool" where
  "net_ok ws \<longleftrightarrow> length ws = 8 \<and> list_all (\<lambda>t. length t = 25 ^ 4) ws"

text \<open>A direction is legal on a board when sliding that way does not return \<open>-1\<close>.\<close>

definition legal :: "board \<Rightarrow> int \<Rightarrow> bool" where
  "legal b op \<longleftrightarrow> fst (slide op b) \<noteq> -1"

text \<open>
  The tables fit a board when the net has the 8 tables and each table has an entry
  at its feature index for the board.
\<close>

definition fits :: "weight list \<Rightarrow> board \<Rightarrow> bool" where
  "fits ws b \<longleftrightarrow> 8 \<le> length ws \<and>
     list_all (\<lambda>k. 0 \<le> features b ! k \<and> nat (features b ! k) < length (ws ! k)) [0..<8]"

text \<open>
  The Value Function of the specification: the sum of the entries that the 8 tuple
  patterns select.
\<close>

definition value_function :: "weight list \<Rightarrow> board \<Rightarrow> real" where
  "value_function ws b = sum_list (map (\<lambda>k. ws ! k ! nat (features b ! k)) [0..<8])"

text \<open>
  The update rule of the specification, \<open>weight[feature] += learning_rate * (target -
  current_value)\<close>: the same scalar goes to the selected entry of each of the 8
  tables, and to nothing else.
\<close>

definition td_update :: "real \<Rightarrow> weight list \<Rightarrow> board \<Rightarrow> real \<Rightarrow> weight list" where
  "td_update a ws b target =
     map (\<lambda>k. if k < 8
               then (ws ! k)[nat (features b ! k) :=
                      ws ! k ! nat (features b ! k) + a * (target - value_function ws b)]
               else ws ! k)
       [0..<length ws]"

text \<open>
  The backward pass as the specification words it: one update per step of the
  trajectory, the last step first, toward 0 for the last step and toward
  \<open>reward[t + 1] + value_function(state[t + 1])\<close> for every earlier step \<open>t\<close>, the
  value read on the weights that the updates before it have left.
\<close>

definition td_target :: "step list \<Rightarrow> nat \<Rightarrow> weight list \<Rightarrow> real" where
  "td_target h t ws =
     (if Suc t = length h then 0
      else real_of_int (reward (h ! Suc t)) + value_function ws (after (h ! Suc t)))"

definition backward_order :: "step list \<Rightarrow> nat list" where
  "backward_order h = rev [0..<length h]"

definition backward_td :: "real \<Rightarrow> step list \<Rightarrow> weight list \<Rightarrow> weight list" where
  "backward_td a h ws =
     fold (\<lambda>t ws. td_update a ws (after (h ! t)) (td_target h t ws)) (backward_order h) ws"

text \<open>
  The outcomes of the two random draws: the arrangements of the 16 positions that a
  shuffle can leave, and the empty cells of a board. A fair shuffle makes every
  arrangement equally likely, and the draw of \<^verbatim>\<open>popup\<close> is uniform on 0 to 9.
\<close>

definition arrangements :: "nat list set" where
  "arrangements = {s. length s = 16 \<and> distinct s \<and> set s \<subseteq> {0..<16}}"

definition empty_cells :: "board \<Rightarrow> nat set" where
  "empty_cells b = {pos. pos < 16 \<and> cell_at b pos = 0}"

section \<open>Example inputs\<close>

definition two_tiles :: board where
  "two_tiles = [0, 0, 0, 0,  0, 1, 0, 0,  0, 0, 2, 0,  0, 0, 0, 0]"

text \<open>A board without an empty cell and without two equal neighbours.\<close>

definition full_board :: board where
  "full_board = [1, 2, 1, 2,  2, 1, 2, 1,  1, 2, 1, 2,  2, 1, 2, 1]"

text \<open>The fresh weights, but for the entries 0 and 675 of the first table.\<close>

definition net_with :: "real \<Rightarrow> real \<Rightarrow> weight list" where
  "net_with x y = (init_weights [])[0 := (replicate (25 * 25 * 25 * 25) 0)[0 := x, 675 := y]]"

definition player_with :: "real \<Rightarrow> real \<Rightarrow> player" where
  "player_with x y = \<lparr>meta = Map.empty, net = net_with x y, alpha = 0, history = []\<rparr>"

definition learner :: player where
  "learner = \<lparr>meta = Map.empty, net = init_weights [], alpha = 1/2,
               history = [\<lparr>reward = 0, after = [0, 1, 2, 0,  0, 0, 0, 0,  0, 0, 0, 1,  0, 0, 0, 0]\<rparr>,
                          \<lparr>reward = 4, after = [0, 0, 0, 0,  0, 0, 0, 0,  0, 0, 0, 2,  0, 1, 0, 2]\<rparr>]\<rparr>"

text \<open>A player with weights other than 0 and a history of three steps.\<close>

definition veteran :: player where
  "veteran = \<lparr>meta = Map.empty, net = net_with 1 2, alpha = 1/2,
               history = [\<lparr>reward = 0, after = [0, 1, 2, 0,  0, 0, 0, 0,  0, 0, 0, 1,  0, 0, 0, 0]\<rparr>,
                          \<lparr>reward = 4, after = [0, 0, 0, 0,  0, 0, 0, 0,  0, 0, 0, 2,  0, 1, 0, 2]\<rparr>,
                          \<lparr>reward = 8, after = [0, 1, 2, 0,  0, 0, 0, 3,  0, 0, 0, 0,  0, 0, 0, 1]\<rparr>]\<rparr>"

definition no_files :: filesystem where
  "no_files = \<lparr>files = Map.empty, writable = (\<lambda>path. False)\<rparr>"

definition one_file :: filesystem where
  "one_file = \<lparr>files = [''weights.bin'' \<mapsto> \<lparr>table_count = 8, tables = init_weights []\<rparr>],
                writable = (\<lambda>path. path = ''weights.bin'')\<rparr>"

definition stod_half :: "string \<Rightarrow> real option" where
  "stod_half text = (if text = ''0.5'' then Some (1/2) else None)"

section \<open>Machine arithmetic of the feature\<close>

lemma sint_of_nat_small:
  assumes "n < 2 ^ 31"
  shows "sint (word_of_nat n :: 32 word) = int n"
proof -
  have "sint (word_of_nat n :: 32 word) = signed_take_bit 31 (int n)"
    by (simp add: signed_of_nat)
  also have "\<dots> = int n"
    using assms by (intro signed_take_bit_int_eq_self) auto
  finally show ?thesis .
qed

lemma feature_word:
  "cell_at b p0 * 25 * 25 * 25 + cell_at b p1 * 25 * 25 + cell_at b p2 * 25 + cell_at b p3
     = (word_of_nat (rank b p0 * 25 ^ 3 + rank b p1 * 25 ^ 2 + rank b p2 * 25 + rank b p3) :: 32 word)"
  by (simp add: rank_def)

text \<open>
  C6. For every board and every four positions, the feature extractor returns
  \<open>rank(p0) * 25^3 + rank(p1) * 25^2 + rank(p2) * 25 + rank(p3)\<close>, whenever that number
  fits the \<^verbatim>\<open>int\<close> that is returned (as it does for every rank up to 131941, and so
  for the ranks 0 to 15 of a Grid State).
\<close>

theorem extract_feature_base25:
  assumes "rank b p0 * 25 ^ 3 + rank b p1 * 25 ^ 2 + rank b p2 * 25 + rank b p3 < 2 ^ 31"
  shows "extract_feature b p0 p1 p2 p3
       = int (rank b p0) * 25 ^ 3 + int (rank b p1) * 25 ^ 2 + int (rank b p2) * 25 + int (rank b p3)"
proof -
  let ?n = "rank b p0 * 25 ^ 3 + rank b p1 * 25 ^ 2 + rank b p2 * 25 + rank b p3"
  have "extract_feature b p0 p1 p2 p3 = sint (word_of_nat ?n :: 32 word)"
    unfolding extract_feature_def feature_word ..
  also have "\<dots> = int ?n"
    using assms by (rule sint_of_nat_small)
  finally show ?thesis by simp
qed

theorem extract_feature_base25_witness:
  "rank two_tiles 4 * 25 ^ 3 + rank two_tiles 5 * 25 ^ 2 + rank two_tiles 6 * 25 + rank two_tiles 7 < 2 ^ 31
   \<and> extract_feature two_tiles 4 5 6 7 = 625"
  using extract_feature_base25 [of two_tiles 4 5 6 7]
  by (simp add: rank_def cell_at_def two_tiles_def)

lemma extract_feature_range:
  assumes "rank b p0 < 25" "rank b p1 < 25" "rank b p2 < 25" "rank b p3 < 25"
  shows "0 \<le> extract_feature b p0 p1 p2 p3 \<and> extract_feature b p0 p1 p2 p3 \<le> 25 ^ 4 - 1"
proof -
  let ?n = "rank b p0 * 25 ^ 3 + rank b p1 * 25 ^ 2 + rank b p2 * 25 + rank b p3"
  have "?n \<le> 25 ^ 4 - 1" using assms by simp
  moreover from this have "sint (word_of_nat ?n :: 32 word) = int ?n"
    by (intro sint_of_nat_small) simp
  ultimately show ?thesis
    unfolding extract_feature_def feature_word by simp
qed

section \<open>Tables\<close>

lemma less_8_cases:
  "k < (8::nat) \<Longrightarrow> k = 0 \<or> k = 1 \<or> k = 2 \<or> k = 3 \<or> k = 4 \<or> k = 5 \<or> k = 6 \<or> k = 7"
  by arith

lemma table_get_SomeD:
  "table_get ws k i = Some x \<Longrightarrow> k < length ws \<and> 0 \<le> i \<and> nat i < length (ws ! k) \<and> x = ws ! k ! nat i"
  by (auto simp: table_get_def split: if_splits)

lemma estimate_value_SomeD:
  assumes "estimate_value ws b = Some current"
  shows "\<exists>v0 v1 v2 v3 v4 v5 v6 v7.
     table_get ws 0 (extract_feature b 0 1 2 3) = Some v0 \<and>
     table_get ws 1 (extract_feature b 4 5 6 7) = Some v1 \<and>
     table_get ws 2 (extract_feature b 8 9 10 11) = Some v2 \<and>
     table_get ws 3 (extract_feature b 12 13 14 15) = Some v3 \<and>
     table_get ws 4 (extract_feature b 0 4 8 12) = Some v4 \<and>
     table_get ws 5 (extract_feature b 1 5 9 13) = Some v5 \<and>
     table_get ws 6 (extract_feature b 2 6 10 14) = Some v6 \<and>
     table_get ws 7 (extract_feature b 3 7 11 15) = Some v7 \<and>
     current = 0 + v0 + v1 + v2 + v3 + v4 + v5 + v6 + v7"
  using assms unfolding estimate_value_def
  by (auto split: Option.bind_splits)

lemma estimate_value_bounds:
  assumes "estimate_value ws b = Some current"
  shows "0 < length ws \<and> 8 \<le> length ws \<and>
         (\<forall>k<8. 0 \<le> features b ! k \<and> nat (features b ! k) < length (ws ! k))"
proof -
  from estimate_value_SomeD [OF assms] obtain v0 v1 v2 v3 v4 v5 v6 v7 where
    g: "table_get ws 0 (extract_feature b 0 1 2 3) = Some v0"
       "table_get ws 1 (extract_feature b 4 5 6 7) = Some v1"
       "table_get ws 2 (extract_feature b 8 9 10 11) = Some v2"
       "table_get ws 3 (extract_feature b 12 13 14 15) = Some v3"
       "table_get ws 4 (extract_feature b 0 4 8 12) = Some v4"
       "table_get ws 5 (extract_feature b 1 5 9 13) = Some v5"
       "table_get ws 6 (extract_feature b 2 6 10 14) = Some v6"
       "table_get ws 7 (extract_feature b 3 7 11 15) = Some v7"
    by blast
  note d = g [THEN table_get_SomeD]
  have "7 < length ws" using d(8) by simp
  moreover have "0 \<le> features b ! k \<and> nat (features b ! k) < length (ws ! k)" if "k < 8" for k
    using less_8_cases [OF that]
  proof (elim disjE)
    show "k = 0 \<Longrightarrow> ?thesis" using d(1) by (simp add: features_def)
    show "k = 1 \<Longrightarrow> ?thesis" using d(2) by (simp add: features_def)
    show "k = 2 \<Longrightarrow> ?thesis" using d(3) by (simp add: features_def)
    show "k = 3 \<Longrightarrow> ?thesis" using d(4) by (simp add: features_def)
    show "k = 4 \<Longrightarrow> ?thesis" using d(5) by (simp add: features_def)
    show "k = 5 \<Longrightarrow> ?thesis" using d(6) by (simp add: features_def)
    show "k = 6 \<Longrightarrow> ?thesis" using d(7) by (simp add: features_def)
    show "k = 7 \<Longrightarrow> ?thesis" using d(8) by (simp add: features_def)
  qed
  ultimately show ?thesis by auto
qed

text \<open>The eight writes of \<^verbatim>\<open>adjust_value\<close>, one table each.\<close>

lemma adjust_value_explicit:
  assumes "estimate_value ws b = Some current"
  shows "adjust_value a ws b target = Some
     (ws[0 := (ws ! 0)[nat (features b ! 0) := ws ! 0 ! nat (features b ! 0) + a * (target - current)],
         1 := (ws ! 1)[nat (features b ! 1) := ws ! 1 ! nat (features b ! 1) + a * (target - current)],
         2 := (ws ! 2)[nat (features b ! 2) := ws ! 2 ! nat (features b ! 2) + a * (target - current)],
         3 := (ws ! 3)[nat (features b ! 3) := ws ! 3 ! nat (features b ! 3) + a * (target - current)],
         4 := (ws ! 4)[nat (features b ! 4) := ws ! 4 ! nat (features b ! 4) + a * (target - current)],
         5 := (ws ! 5)[nat (features b ! 5) := ws ! 5 ! nat (features b ! 5) + a * (target - current)],
         6 := (ws ! 6)[nat (features b ! 6) := ws ! 6 ! nat (features b ! 6) + a * (target - current)],
         7 := (ws ! 7)[nat (features b ! 7) := ws ! 7 ! nat (features b ! 7) + a * (target - current)]])"
proof -
  from estimate_value_SomeD [OF assms] obtain v0 v1 v2 v3 v4 v5 v6 v7 where
    g: "table_get ws 0 (extract_feature b 0 1 2 3) = Some v0"
       "table_get ws 1 (extract_feature b 4 5 6 7) = Some v1"
       "table_get ws 2 (extract_feature b 8 9 10 11) = Some v2"
       "table_get ws 3 (extract_feature b 12 13 14 15) = Some v3"
       "table_get ws 4 (extract_feature b 0 4 8 12) = Some v4"
       "table_get ws 5 (extract_feature b 1 5 9 13) = Some v5"
       "table_get ws 6 (extract_feature b 2 6 10 14) = Some v6"
       "table_get ws 7 (extract_feature b 3 7 11 15) = Some v7"
    by blast
  note d = g [THEN table_get_SomeD]
  show ?thesis
    unfolding adjust_value_def using assms d
    by (simp add: table_add_def Let_def features_def)
qed

lemma nth_update8:
  assumes "8 \<le> length ws"
  shows "ws[0 := t 0, 1 := t 1, 2 := t 2, 3 := t 3, 4 := t 4, 5 := t 5, 6 := t 6, 7 := t 7] ! k
         = (if k < 8 then t k else ws ! k)"
proof (cases "k < 8")
  case True
  have "0 < length ws" using assms by auto
  with less_8_cases [OF True] assms show ?thesis
    by (elim disjE) simp_all
next
  case False
  then show ?thesis by simp
qed

lemma adjust_value_tables:
  assumes "estimate_value ws b = Some current"
  shows "\<exists>ws'. adjust_value a ws b target = Some ws' \<and> length ws' = length ws \<and>
           (\<forall>k. ws' ! k = (if k < 8 then (ws ! k)[nat (features b ! k) :=
                               ws ! k ! nat (features b ! k) + a * (target - current)]
                           else ws ! k))"
proof -
  define t where "t k = (ws ! k)[nat (features b ! k) :=
                     ws ! k ! nat (features b ! k) + a * (target - current)]" for k
  define ws' where "ws' = ws[0 := t 0, 1 := t 1, 2 := t 2, 3 := t 3, 4 := t 4, 5 := t 5, 6 := t 6, 7 := t 7]"
  have "adjust_value a ws b target = Some ws'"
    unfolding ws'_def t_def by (rule adjust_value_explicit [OF assms])
  moreover have "8 \<le> length ws"
    using estimate_value_bounds [OF assms] by simp
  then have "ws' ! k = (if k < 8 then t k else ws ! k)" for k
    unfolding ws'_def by (rule nth_update8)
  moreover have "length ws' = length ws" by (simp add: ws'_def)
  ultimately show ?thesis unfolding t_def by blast
qed

text \<open>
  C5. \<^verbatim>\<open>adjust_value\<close> computes one scalar, \<open>alpha * (target - estimate_value(board))\<close>,
  with the estimate read before any write, and adds it to one entry of each of the 8
  tables, the entry at that table's feature index for the board; no other entry
  changes, and no table changes its size.
\<close>

theorem adjust_value_one_scalar:
  assumes "estimate_value ws b = Some current"
  shows "\<exists>ws'. adjust_value a ws b target = Some ws' \<and> length ws' = length ws \<and>
           (\<forall>k < length ws. length (ws' ! k) = length (ws ! k) \<and>
              (\<forall>i < length (ws ! k). ws' ! k ! i =
                 (if k < 8 \<and> int i = features b ! k
                  then ws ! k ! i + a * (target - current) else ws ! k ! i)))"
proof -
  from adjust_value_tables [OF assms, of a target] obtain ws' where
    e: "adjust_value a ws b target = Some ws'" and len: "length ws' = length ws" and
    nth: "\<And>k. ws' ! k = (if k < 8 then (ws ! k)[nat (features b ! k) :=
                               ws ! k ! nat (features b ! k) + a * (target - current)]
                           else ws ! k)"
    by blast
  have "length (ws' ! k) = length (ws ! k) \<and>
        (\<forall>i < length (ws ! k). ws' ! k ! i =
            (if k < 8 \<and> int i = features b ! k
             then ws ! k ! i + a * (target - current) else ws ! k ! i))" for k
  proof (cases "k < 8")
    case True
    from estimate_value_bounds [OF assms] True
    have "int i = features b ! k \<longleftrightarrow> i = nat (features b ! k)" for i
      by auto
    then show ?thesis using True by (simp add: nth nth_list_update)
  next
    case False
    then show ?thesis by (simp add: nth)
  qed
  with e len show ?thesis by blast
qed

lemma features_two_tiles: "features two_tiles = [0, 625, 50, 0, 0, 625, 50, 0]"
  by (simp add: features_def extract_feature_def cell_at_def two_tiles_def)

lemma init_weights_Nil_nth: "k < 8 \<Longrightarrow> init_weights [] ! k = replicate (25 ^ 4) 0"
  by (drule less_8_cases) (auto simp: init_weights_def)

lemma estimate_value_fresh: "estimate_value (init_weights []) two_tiles = Some 0"
  by (simp add: estimate_value_def table_get_def extract_feature_def cell_at_def two_tiles_def
      init_weights_def)

theorem adjust_value_one_scalar_witness:
  "estimate_value (init_weights []) two_tiles = Some 0 \<and>
   (\<exists>ws'. adjust_value (1/2) (init_weights []) two_tiles 1 = Some ws' \<and> length ws' = 8 \<and>
      ws' ! 1 ! 625 = 1/2 \<and> ws' ! 1 ! 624 = 0 \<and> ws' ! 2 ! 50 = 1/2)"
proof -
  from adjust_value_one_scalar [OF estimate_value_fresh, of "1/2" 1] obtain ws' where
    e: "adjust_value (1/2) (init_weights []) two_tiles 1 = Some ws'" and
    len: "length ws' = length (init_weights [])" and
    nth: "\<And>k i. k < length (init_weights []) \<Longrightarrow> i < length (init_weights [] ! k) \<Longrightarrow>
            ws' ! k ! i = (if k < 8 \<and> int i = features two_tiles ! k
                then init_weights [] ! k ! i + 1/2 * (1 - 0) else init_weights [] ! k ! i)"
    by blast
  have l: "length (init_weights []) = 8" by (simp add: init_weights_def)
  have "ws' ! 1 ! 625 = 1/2" "ws' ! 1 ! 624 = 0" "ws' ! 2 ! 50 = 1/2"
    by (simp_all add: nth l init_weights_Nil_nth features_two_tiles)
  with e len l estimate_value_fresh show ?thesis by simp
qed

section \<open>Bounds of the table accesses\<close>

lemma board_ok_rank: "board_ok b \<Longrightarrow> i < 16 \<Longrightarrow> rank b i < 25"
  by (simp add: board_ok_def list_all_length rank_def cell_at_def)

lemma net_ok_length: "net_ok ws \<Longrightarrow> k < 8 \<Longrightarrow> length (ws ! k) = 25 ^ 4"
  by (simp add: net_ok_def list_all_length)

lemma init_weights_net_ok: "net_ok (init_weights [])"
  by (simp add: net_ok_def init_weights_def)

lemma features_range:
  assumes "board_ok b" "k < 8"
  shows "0 \<le> features b ! k \<and> features b ! k \<le> 25 ^ 4 - 1"
proof -
  note r = board_ok_rank [OF assms(1)]
  note x = extract_feature_range [OF r r r r]
  from less_8_cases [OF assms(2)] show ?thesis
  proof (elim disjE)
    show "k = 0 \<Longrightarrow> ?thesis" using x [of 0 1 2 3] by (simp add: features_def)
    show "k = 1 \<Longrightarrow> ?thesis" using x [of 4 5 6 7] by (simp add: features_def)
    show "k = 2 \<Longrightarrow> ?thesis" using x [of 8 9 10 11] by (simp add: features_def)
    show "k = 3 \<Longrightarrow> ?thesis" using x [of 12 13 14 15] by (simp add: features_def)
    show "k = 4 \<Longrightarrow> ?thesis" using x [of 0 4 8 12] by (simp add: features_def)
    show "k = 5 \<Longrightarrow> ?thesis" using x [of 1 5 9 13] by (simp add: features_def)
    show "k = 6 \<Longrightarrow> ?thesis" using x [of 2 6 10 14] by (simp add: features_def)
    show "k = 7 \<Longrightarrow> ?thesis" using x [of 3 7 11 15] by (simp add: features_def)
  qed
qed

lemma table_get_in_range:
  assumes "board_ok b" "net_ok ws" "k < 8"
  shows "table_get ws k (features b ! k) \<noteq> None"
proof -
  from features_range [OF assms(1,3)]
  have "0 \<le> features b ! k" "nat (features b ! k) < 25 ^ 4" by auto
  then show ?thesis
    using assms(2,3) net_ok_length [OF assms(2,3)] by (simp add: table_get_def net_ok_def)
qed

lemma estimate_value_defined:
  assumes "board_ok b" "net_ok ws"
  shows "\<exists>v. estimate_value ws b = Some v"
proof -
  note g = table_get_in_range [OF assms]
  have g0: "table_get ws 0 (extract_feature b 0 1 2 3) \<noteq> None" using g [of 0] by (simp add: features_def)
  have g1: "table_get ws 1 (extract_feature b 4 5 6 7) \<noteq> None" using g [of 1] by (simp add: features_def)
  have g2: "table_get ws 2 (extract_feature b 8 9 10 11) \<noteq> None" using g [of 2] by (simp add: features_def)
  have g3: "table_get ws 3 (extract_feature b 12 13 14 15) \<noteq> None" using g [of 3] by (simp add: features_def)
  have g4: "table_get ws 4 (extract_feature b 0 4 8 12) \<noteq> None" using g [of 4] by (simp add: features_def)
  have g5: "table_get ws 5 (extract_feature b 1 5 9 13) \<noteq> None" using g [of 5] by (simp add: features_def)
  have g6: "table_get ws 6 (extract_feature b 2 6 10 14) \<noteq> None" using g [of 6] by (simp add: features_def)
  have g7: "table_get ws 7 (extract_feature b 3 7 11 15) \<noteq> None" using g [of 7] by (simp add: features_def)
  from g0 g1 g2 g3 g4 g5 g6 g7 show ?thesis
    unfolding estimate_value_def by (auto simp del: One_nat_def)
qed

lemma adjust_value_defined:
  assumes "board_ok b" "net_ok ws"
  shows "\<exists>ws'. adjust_value a ws b target = Some ws' \<and> net_ok ws'"
proof -
  from estimate_value_defined [OF assms] obtain v where "estimate_value ws b = Some v" ..
  from adjust_value_tables [OF this, of a target] obtain ws' where
    e: "adjust_value a ws b target = Some ws'" and len: "length ws' = length ws" and
    nth: "\<And>k. ws' ! k = (if k < 8 then (ws ! k)[nat (features b ! k) :=
                               ws ! k ! nat (features b ! k) + a * (target - v)]
                           else ws ! k)"
    by blast
  have "net_ok ws'"
    using assms(2) len by (simp add: net_ok_def list_all_length nth)
  with e show ?thesis by blast
qed

text \<open>
  C7. For a board whose 16 ranks are all below 25 and a net of 8 tables of \<open>25 ^ 4\<close>
  entries, each of the 8 feature indices lies between 0 and \<open>25 ^ 4 - 1\<close>, so every
  read of \<^verbatim>\<open>estimate_value\<close> and every write of \<^verbatim>\<open>adjust_value\<close> is within bounds
  (both return a result), and the adjusted net has the same shape.
\<close>

theorem feature_indices_within_bounds:
  assumes "board_ok b" "net_ok ws"
  shows "(\<forall>k<8. 0 \<le> features b ! k \<and> features b ! k \<le> 25 ^ 4 - 1) \<and>
         (\<exists>v. estimate_value ws b = Some v) \<and>
         (\<exists>ws'. adjust_value a ws b target = Some ws' \<and> net_ok ws')"
proof (intro conjI allI impI)
  fix k :: nat assume "k < 8"
  from features_range [OF assms(1) this]
  show "0 \<le> features b ! k" "features b ! k \<le> 25 ^ 4 - 1"
    by blast+
next
  show "\<exists>v. estimate_value ws b = Some v"
    using assms by (rule estimate_value_defined)
next
  show "\<exists>ws'. adjust_value a ws b target = Some ws' \<and> net_ok ws'"
    using assms by (rule adjust_value_defined)
qed

theorem feature_indices_within_bounds_witness:
  "board_ok two_tiles \<and> net_ok (init_weights []) \<and>
   features two_tiles ! 1 = 625 \<and> features two_tiles ! 1 \<le> 25 ^ 4 - 1 \<and>
   (\<exists>v. estimate_value (init_weights []) two_tiles = Some v) \<and>
   (\<exists>ws'. adjust_value (1/2) (init_weights []) two_tiles 1 = Some ws' \<and> net_ok ws')"
proof -
  have b: "board_ok two_tiles" by (simp add: board_ok_def two_tiles_def)
  from feature_indices_within_bounds [OF b init_weights_net_ok, of "1/2" 1] b init_weights_net_ok
  show ?thesis by (simp add: features_two_tiles)
qed

text \<open>A rank of 25 is outside the precondition: in the first cell it gives the index \<open>25 ^ 4\<close>.\<close>

lemma rank_25_out_of_bounds:
  "extract_feature (two_tiles[0 := 25]) 0 1 2 3 = 25 ^ 4 \<and>
   estimate_value (init_weights []) (two_tiles[0 := 25]) = None"
  by (simp add: estimate_value_def table_get_def extract_feature_def cell_at_def two_tiles_def
      init_weights_def)

section \<open>Closing an episode\<close>

text \<open>
  C3. If the history is empty or the learning rate is 0, \<^verbatim>\<open>close_episode\<close> returns
  and leaves the player, and so every entry of every weight table, as it was.
\<close>

theorem close_episode_evaluation_mode:
  assumes "history p = [] \<or> alpha p = 0"
  shows "close_episode p = Some p"
  using assms by (auto simp: close_episode_def)

theorem close_episode_evaluation_mode_witness:
  "(history (player_with (1/2) (1/2)\<lparr>history := [\<lparr>reward = 4, after = two_tiles\<rparr>]\<rparr>) = [] \<or>
    alpha (player_with (1/2) (1/2)\<lparr>history := [\<lparr>reward = 4, after = two_tiles\<rparr>]\<rparr>) = 0) \<and>
   map_option net (close_episode (player_with (1/2) (1/2)\<lparr>history := [\<lparr>reward = 4, after = two_tiles\<rparr>]\<rparr>))
     = Some (net_with (1/2) (1/2)) \<and>
   (history (learner\<lparr>history := []\<rparr>) = [] \<or> alpha (learner\<lparr>history := []\<rparr>) = 0) \<and>
   map_option net (close_episode (learner\<lparr>history := []\<rparr>)) = Some (init_weights [])"
  using close_episode_evaluation_mode
    [of "player_with (1/2) (1/2)\<lparr>history := [\<lparr>reward = 4, after = two_tiles\<rparr>]\<rparr>"]
    close_episode_evaluation_mode [of "learner\<lparr>history := []\<rparr>"]
  by (simp add: player_with_def learner_def)

lemma fits_iff:
  "fits ws b \<longleftrightarrow> 8 \<le> length ws \<and>
     (\<forall>k<8. 0 \<le> features b ! k \<and> nat (features b ! k) < length (ws ! k))"
  by (auto simp: fits_def list_all_iff)

lemma fits_of_ok: "board_ok b \<Longrightarrow> net_ok ws \<Longrightarrow> fits ws b"
  unfolding fits_iff
proof (intro conjI allI impI)
  assume "net_ok ws" then show "8 \<le> length ws" by (simp add: net_ok_def)
next
  fix k :: nat assume ok: "board_ok b" "net_ok ws" and k: "k < 8"
  from features_range [OF ok(1) k] net_ok_length [OF ok(2) k]
  show "0 \<le> features b ! k" "nat (features b ! k) < length (ws ! k)" by auto
qed

lemma value_function_sum:
  "value_function ws b =
     0 + ws ! 0 ! nat (features b ! 0) + ws ! 1 ! nat (features b ! 1)
       + ws ! 2 ! nat (features b ! 2) + ws ! 3 ! nat (features b ! 3)
       + ws ! 4 ! nat (features b ! 4) + ws ! 5 ! nat (features b ! 5)
       + ws ! 6 ! nat (features b ! 6) + ws ! 7 ! nat (features b ! 7)"
proof -
  have "[0..<8] = [0, 1, 2, 3, 4, 5, 6, 7 :: nat]" by (simp add: upt_rec)
  then show ?thesis unfolding value_function_def by simp
qed

lemma table_get_fits:
  assumes "fits ws b" "k < 8"
  shows "table_get ws k (features b ! k) = Some (ws ! k ! nat (features b ! k))"
  using assms by (simp add: fits_iff table_get_def)

lemma estimate_value_fits:
  assumes "fits ws b"
  shows "estimate_value ws b = Some (value_function ws b)"
proof -
  note g = table_get_fits [OF assms]
  have g0: "table_get ws 0 (extract_feature b 0 1 2 3) = Some (ws ! 0 ! nat (features b ! 0))"
    using g [of 0] by (simp add: features_def)
  have g1: "table_get ws 1 (extract_feature b 4 5 6 7) = Some (ws ! 1 ! nat (features b ! 1))"
    using g [of 1] by (simp add: features_def)
  have g2: "table_get ws 2 (extract_feature b 8 9 10 11) = Some (ws ! 2 ! nat (features b ! 2))"
    using g [of 2] by (simp add: features_def)
  have g3: "table_get ws 3 (extract_feature b 12 13 14 15) = Some (ws ! 3 ! nat (features b ! 3))"
    using g [of 3] by (simp add: features_def)
  have g4: "table_get ws 4 (extract_feature b 0 4 8 12) = Some (ws ! 4 ! nat (features b ! 4))"
    using g [of 4] by (simp add: features_def)
  have g5: "table_get ws 5 (extract_feature b 1 5 9 13) = Some (ws ! 5 ! nat (features b ! 5))"
    using g [of 5] by (simp add: features_def)
  have g6: "table_get ws 6 (extract_feature b 2 6 10 14) = Some (ws ! 6 ! nat (features b ! 6))"
    using g [of 6] by (simp add: features_def)
  have g7: "table_get ws 7 (extract_feature b 3 7 11 15) = Some (ws ! 7 ! nat (features b ! 7))"
    using g [of 7] by (simp add: features_def)
  show ?thesis
    unfolding estimate_value_def g0 g1 g2 g3 g4 g5 g6 g7 value_function_sum by simp
qed

lemma length_td_update: "length (td_update a ws b target) = length ws"
  by (simp add: td_update_def)

lemma nth_td_update:
  "k < length ws \<Longrightarrow> td_update a ws b target ! k =
     (if k < 8 then (ws ! k)[nat (features b ! k) :=
                       ws ! k ! nat (features b ! k) + a * (target - value_function ws b)]
      else ws ! k)"
  by (simp add: td_update_def)

lemma adjust_value_fits:
  assumes "fits ws b"
  shows "adjust_value a ws b target = Some (td_update a ws b target)"
proof -
  note e = estimate_value_fits [OF assms]
  from adjust_value_tables [OF e, of a target] obtain ws' where
    a: "adjust_value a ws b target = Some ws'" and len: "length ws' = length ws" and
    nth: "\<And>k. ws' ! k = (if k < 8 then (ws ! k)[nat (features b ! k) :=
                               ws ! k ! nat (features b ! k) + a * (target - value_function ws b)]
                           else ws ! k)"
    by blast
  have "ws' = td_update a ws b target"
    by (rule nth_equalityI) (simp_all add: len length_td_update nth nth_td_update)
  with a show ?thesis by simp
qed

lemma fits_td_update: "fits ws b \<Longrightarrow> fits (td_update a ws b' target) b"
  by (simp add: fits_iff length_td_update nth_td_update)

lemma td_loop_backward:
  assumes "list_all (\<lambda>s. fits ws (after s)) h" "t + 2 \<le> int (length h)" "- 1 \<le> t"
  shows "td_loop a h t ws =
           Some (fold (\<lambda>t ws. td_update a ws (after (h ! t)) (td_target h t ws))
                   (rev [0..<nat (t + 1)]) ws)"
  using assms
proof (induction "nat (t + 1)" arbitrary: t ws)
  case 0
  then have "t = - 1" by simp
  then show ?case by (simp add: td_loop.simps [of a h "- 1" ws])
next
  case (Suc n)
  let ?step = "\<lambda>t ws. td_update a ws (after (h ! t)) (td_target h t ws)"
  from Suc.hyps(2) Suc.prems
  have t: "0 \<le> t" "nat (t + 1) = Suc (nat t)" "Suc (nat t) < length h" "n = nat (t - 1 + 1)"
    by auto
  have f: "fits ws (after (h ! nat t))" "fits ws (after (h ! Suc (nat t)))"
    using Suc.prems(1) t(3) by (simp_all add: list_all_length)
  have target: "td_target h (nat t) ws
      = real_of_int (reward (h ! Suc (nat t))) + value_function ws (after (h ! Suc (nat t)))"
    using t(3) by (simp add: td_target_def)
  have all: "list_all (\<lambda>s. fits (?step (nat t) ws) (after s)) h"
    using Suc.prems(1) by (simp add: list_all_length fits_td_update)
  have ih: "td_loop a h (t - 1) (?step (nat t) ws)
              = Some (fold ?step (rev [0..<nat t]) (?step (nat t) ws))"
    using Suc.hyps(1) [OF t(4) all] Suc.prems t by simp
  have "td_loop a h t ws = td_loop a h (t - 1) (?step (nat t) ws)"
    using t(1)
    by (subst td_loop.simps)
      (simp add: estimate_value_fits [OF f(2)] adjust_value_fits [OF f(1)] target nat_add_distrib)
  also note ih
  finally show ?case by (simp add: t(2))
qed

text \<open>
  C4. For a trajectory of n \<ge> 1 steps and a learning rate other than 0, on tables
  that fit the boards of the trajectory, \<^verbatim>\<open>close_episode\<close> returns with the weights
  of the backward pass: n updates, the last step first, toward 0 for the last step,
  then for t = n - 2 down to 0 toward \<open>reward[t + 1] + value_function(state[t + 1])\<close>
  read on the weights that the updates before it have left; each update adds
  \<open>alpha * (target - value)\<close> to the 8 selected entries.
\<close>

theorem close_episode_backward_td:
  assumes "history p \<noteq> []" "alpha p \<noteq> 0"
    and "list_all (\<lambda>s. fits (net p) (after s)) (history p)"
  shows "close_episode p = Some (p\<lparr>net := backward_td (alpha p) (history p) (net p)\<rparr>) \<and>
         length (backward_order (history p)) = length (history p) \<and>
         backward_order (history p) ! 0 = length (history p) - 1"
proof -
  define h where "h = history p"
  define n where "n = length h"
  let ?step = "\<lambda>t ws. td_update (alpha p) ws (after (h ! t)) (td_target h t ws)"
  have n: "0 < n" using assms(1) by (simp add: n_def h_def)
  then have up: "rev [0..<n] = (n - 1) # rev [0..<n - 1]"
    by (cases n) simp_all
  have last: "fits (net p) (after (h ! (n - 1)))"
    using assms(3) n by (simp add: list_all_length h_def n_def)
  have "Suc (n - 1) = length h" using n by (simp add: n_def)
  then have tz: "td_target h (n - 1) (net p) = 0" by (simp add: td_target_def)
  have first: "adjust_value (alpha p) (net p) (after (h ! (n - 1))) 0 = Some (?step (n - 1) (net p))"
    by (simp only: adjust_value_fits [OF last] tz)
  have all: "list_all (\<lambda>s. fits (?step (n - 1) (net p)) (after s)) h"
    using assms(3) by (simp add: list_all_length fits_td_update h_def)
  have "int n - 2 + 2 \<le> int (length h)" "- 1 \<le> int n - 2"
    using n unfolding n_def by linarith+
  from td_loop_backward [OF all this, of "alpha p"]
  have "td_loop (alpha p) h (int n - 2) (?step (n - 1) (net p))
          = Some (fold ?step (rev [0..<nat (int n - 2 + 1)]) (?step (n - 1) (net p)))" .
  moreover have "nat (int n - 2 + 1) = n - 1" by simp
  ultimately have loop: "td_loop (alpha p) h (int n - 2) (?step (n - 1) (net p))
          = Some (fold ?step (rev [0..<n - 1]) (?step (n - 1) (net p)))"
    by simp
  have "close_episode p =
          Option.bind (adjust_value (alpha p) (net p) (after (h ! (n - 1))) 0)
            (\<lambda>ws. Option.bind (td_loop (alpha p) h (int n - 2) ws) (\<lambda>ws'. Some (p\<lparr>net := ws'\<rparr>)))"
    using assms(1,2) by (simp add: close_episode_def h_def n_def)
  also have "\<dots> = Some (p\<lparr>net := fold ?step (rev [0..<n - 1]) (?step (n - 1) (net p))\<rparr>)"
    by (simp only: first loop Option.bind.bind_lunit)
  also have "fold ?step (rev [0..<n - 1]) (?step (n - 1) (net p)) = backward_td (alpha p) h (net p)"
    unfolding backward_td_def backward_order_def n_def [symmetric] up by simp
  finally have "close_episode p = Some (p\<lparr>net := backward_td (alpha p) (history p) (net p)\<rparr>)"
    by (simp add: h_def)
  moreover have "backward_order (history p) ! 0 = length (history p) - 1"
    using up by (simp add: backward_order_def h_def n_def)
  ultimately show ?thesis by (simp add: backward_order_def)
qed

lemma entry_td_update:
  assumes "k < 8" "8 \<le> length ws" "i < length (ws ! k)"
  shows "td_update a ws b target ! k ! i =
           (if i = nat (features b ! k) then ws ! k ! i + a * (target - value_function ws b)
            else ws ! k ! i)"
  using assms by (simp add: nth_td_update nth_list_update)

lemma length_table_td_update:
  "k < length ws \<Longrightarrow> length (td_update a ws b target ! k) = length (ws ! k)"
  by (simp add: nth_td_update)

lemma net_with_shape:
  "length (net_with x y) = 8" "k < 8 \<Longrightarrow> length (net_with x y ! k) = 390625"
  by (auto simp: net_with_def init_weights_def nth_list_update dest!: less_8_cases)

lemma net_with_entry:
  assumes "k < 8" "i < 390625"
  shows "net_with x y ! k ! i = (if k = 0 \<and> i = 0 then x else if k = 0 \<and> i = 675 then y else 0)"
  using less_8_cases [OF assms(1)] assms(2)
  by (auto simp: net_with_def init_weights_def nth_list_update)

lemma features_veteran:
  "features [0, 1, 2, 0,  0, 0, 0, 0,  0, 0, 0, 1,  0, 0, 0, 0] = [675, 0, 1, 0, 0, 15625, 31250, 25]"
  "features [0, 0, 0, 0,  0, 0, 0, 0,  0, 0, 0, 2,  0, 1, 0, 2] = [0, 0, 2, 627, 0, 1, 0, 52]"
  "features [0, 1, 2, 0,  0, 0, 0, 3,  0, 0, 0, 0,  0, 0, 0, 1] = [675, 3, 0, 1, 0, 15625, 31250, 1876]"
  by (simp_all add: features_def extract_feature_def cell_at_def)

lemma fits_veteran: "list_all (\<lambda>s. fits (net veteran) (after s)) (history veteran)"
  by (simp add: veteran_def fits_def features_veteran net_with_shape upt_rec)

theorem close_episode_backward_td_witness:
  "history veteran \<noteq> [] \<and> alpha veteran \<noteq> 0 \<and>
   list_all (\<lambda>s. fits (net veteran) (after s)) (history veteran) \<and>
   (\<exists>ws'. close_episode veteran = Some (veteran\<lparr>net := ws'\<rparr>) \<and>
      ws' ! 0 ! 0 = 2 \<and> ws' ! 0 ! 675 = 7 \<and> ws' ! 1 ! 0 = 7 \<and> ws' ! 1 ! 3 = - 1 \<and>
      ws' ! 2 ! 2 = 1 \<and> ws' ! 4 ! 0 = 6 \<and> ws' ! 5 ! 15625 = 5 \<and> ws' ! 7 ! 25 = 6 \<and>
      ws' ! 7 ! 52 = 1 \<and> ws' ! 7 ! 1876 = - 1 \<and> ws' ! 7 ! 0 = 0) \<and>
   length (backward_order (history veteran)) = 3"
proof -
  have h: "history veteran \<noteq> []" "alpha veteran \<noteq> 0" "length (history veteran) = 3"
    by (simp_all add: veteran_def)
  define ws' where "ws' = backward_td (alpha veteran) (history veteran) (net veteran)"
  from close_episode_backward_td [OF h(1,2) fits_veteran]
  have c: "close_episode veteran = Some (veteran\<lparr>net := ws'\<rparr>)"
    and l: "length (backward_order (history veteran)) = 3"
    by (simp_all add: ws'_def h(3))
  note ev = entry_td_update length_table_td_update length_td_update net_with_shape net_with_entry
    value_function_sum features_veteran
  have w: "ws' ! 0 ! 0 = 2" "ws' ! 0 ! 675 = 7" "ws' ! 1 ! 0 = 7" "ws' ! 1 ! 3 = - 1"
      "ws' ! 2 ! 2 = 1" "ws' ! 4 ! 0 = 6" "ws' ! 5 ! 15625 = 5" "ws' ! 7 ! 25 = 6"
      "ws' ! 7 ! 52 = 1" "ws' ! 7 ! 1876 = - 1" "ws' ! 7 ! 0 = 0"
    unfolding ws'_def
    by (simp_all add: veteran_def backward_td_def backward_order_def td_target_def upt_rec ev)
  from h(1,2) fits_veteran c l w show ?thesis by blast
qed

section \<open>Choosing a move\<close>

lemmas slide_eval = slide_def slide_up_def slide_down_def slide_left_def slide_right_def
  rows_def columns_def of_rows_def of_columns_def slide_line_def cell_at_def upt_rec

lemma slide_two_tiles:
  "slide 0 two_tiles = (0, [0, 1, 2, 0,  0, 0, 0, 0,  0, 0, 0, 0,  0, 0, 0, 0])"
  "slide 1 two_tiles = (0, [0, 0, 0, 0,  0, 0, 0, 1,  0, 0, 0, 2,  0, 0, 0, 0])"
  "slide 2 two_tiles = (0, [0, 0, 0, 0,  0, 0, 0, 0,  0, 0, 0, 0,  0, 1, 2, 0])"
  "slide 3 two_tiles = (0, [0, 0, 0, 0,  1, 0, 0, 0,  2, 0, 0, 0,  0, 0, 0, 0])"
  by (simp_all add: two_tiles_def slide_eval)

lemma estimate_value_net_with:
  "estimate_value (net_with x y) [0, 1, 2, 0,  0, 0, 0, 0,  0, 0, 0, 0,  0, 0, 0, 0] = Some y"
  "estimate_value (net_with x y) [0, 0, 0, 0,  0, 0, 0, 1,  0, 0, 0, 2,  0, 0, 0, 0] = Some x"
  "estimate_value (net_with x y) [0, 0, 0, 0,  0, 0, 0, 0,  0, 0, 0, 0,  0, 1, 2, 0] = Some x"
  "estimate_value (net_with x y) [0, 0, 0, 0,  1, 0, 0, 0,  2, 0, 0, 0,  0, 0, 0, 0] = Some x"
  by (simp_all add: estimate_value_def table_get_def extract_feature_def cell_at_def
      net_with_def init_weights_def)

text \<open>
  C1. On the board \<open>two_tiles\<close> every direction is legal with reward 0. With the
  weights \<open>net_with (1/2) (1/2)\<close> all four resulting boards have the value 1/2, a
  tie that the claim gives to direction 0; \<^verbatim>\<open>take_action\<close> returns direction 3, because
  \<^verbatim>\<open>best_value\<close> is an \<^verbatim>\<open>int\<close> and keeps 0 of the 1/2.
\<close>

theorem take_action_tie_goes_to_last:
  "map (\<lambda>op. (fst (slide op two_tiles), estimate_value (net_with (1/2) (1/2)) (snd (slide op two_tiles))))
       [0, 1, 2, 3]
     = [(0, Some (1/2)), (0, Some (1/2)), (0, Some (1/2)), (0, Some (1/2))] \<and>
   map_option fst (take_action (player_with (1/2) (1/2)) two_tiles) = Some (Slide 3)"
  by (simp add: take_action_def player_with_def slide_two_tiles estimate_value_net_with
      int_add_def float_to_int_def)

text \<open>
  With \<open>net_with (1/2) (3/4)\<close> direction 0 alone has the greatest reward plus value,
  3/4, and \<^verbatim>\<open>take_action\<close> still returns direction 3, whose value is 1/2.
\<close>

lemma take_action_misses_maximum:
  "map (\<lambda>op. (fst (slide op two_tiles), estimate_value (net_with (1/2) (3/4)) (snd (slide op two_tiles))))
       [0, 1, 2, 3]
     = [(0, Some (3/4)), (0, Some (1/2)), (0, Some (1/2)), (0, Some (1/2))] \<and>
   map_option fst (take_action (player_with (1/2) (3/4)) two_tiles) = Some (Slide 3)"
  by (simp add: take_action_def player_with_def slide_two_tiles estimate_value_net_with
      int_add_def float_to_int_def)

text \<open>
  C2. With the weights \<open>net_with (- 200000) (- 200000)\<close> every direction is legal on
  \<open>two_tiles\<close>, with reward 0 and value -200000. None of them is above the initial
  \<open>-1 + -99999\<close>, so \<^verbatim>\<open>take_action\<close> records no step and returns
  \<^verbatim>\<open>action::slide(-1)\<close>, where the claim has one step appended and a slide of the
  winning direction returned.
\<close>

theorem take_action_drops_legal_moves:
  "map (legal two_tiles) [0, 1, 2, 3] = [True, True, True, True] \<and>
   take_action (player_with (- 200000) (- 200000)) two_tiles
     = Some (Slide (- 1), player_with (- 200000) (- 200000))"
  by (simp add: take_action_def player_with_def legal_def slide_two_tiles estimate_value_net_with
      int_add_def float_to_int_def)

lemma try_ops_illegal:
  "\<forall>op \<in> set ops. \<not> legal b op \<Longrightarrow> try_ops ws b ops best = Some best"
proof (induction ops)
  case Nil
  then show ?case by simp
next
  case (Cons op ops)
  obtain best_op best_reward best_value best_after
    where best: "best = (best_op, best_reward, best_value, best_after)"
    by (cases best) auto
  obtain r a where s: "slide op b = (r, a)" by (cases "slide op b") auto
  with Cons.prems have "r = - 1" by (simp add: legal_def)
  with Cons show ?case by (simp add: best s)
qed

text \<open>
  Without a legal move \<^verbatim>\<open>take_action\<close> leaves the history as it is and returns
  \<^verbatim>\<open>action::slide(-1)\<close>, on every board and with every net.
\<close>

lemma take_action_without_legal_move:
  assumes "\<forall>op \<in> {0, 1, 2, 3}. \<not> legal b op"
  shows "take_action p b = Some (Slide (- 1), p)"
proof -
  from assms have "\<forall>op \<in> set [0, 1, 2, 3]. \<not> legal b op" by simp
  then have "try_ops (net p) b [0, 1, 2, 3] (- 1, - 1, - 99999, replicate 16 0)
               = Some (- 1, - 1, - 99999, replicate 16 0)"
    by (rule try_ops_illegal)
  then show ?thesis unfolding take_action_def by simp
qed

lemma take_action_no_move:
  "map (legal full_board) [0, 1, 2, 3] = [False, False, False, False] \<and>
   take_action (player_with 0 0) full_board = Some (Slide (- 1), player_with 0 0)"
  by (simp add: take_action_def legal_def full_board_def slide_eval)

section \<open>Weight files\<close>

text \<open>
  C9. When the weight file does not open, \<^verbatim>\<open>load_weights\<close> ends the process with a
  status other than 0 (\<open>-1\<close>, which the parent reads as 255), and so does
  \<^verbatim>\<open>save_weights\<close> when its file does not open for writing; when the file opens,
  both return.
\<close>

theorem weight_file_not_open_exits:
  "(files fs path = None \<longrightarrow>
      (\<exists>status. load_weights fs path ws = Exit status \<and> status \<noteq> 0 \<and> status mod 256 \<noteq> 0)) \<and>
   (files fs path \<noteq> None \<longrightarrow> (\<exists>ws'. load_weights fs path ws = Return ws')) \<and>
   (\<not> writable fs path \<longrightarrow>
      (\<exists>status. save_weights fs path ws = Exit status \<and> status \<noteq> 0 \<and> status mod 256 \<noteq> 0)) \<and>
   (writable fs path \<longrightarrow> (\<exists>fs'. save_weights fs path ws = Return fs'))"
proof (intro conjI impI)
  assume "files fs path = None"
  then have "load_weights fs path ws = Exit (- 1)" by (simp add: load_weights_def)
  then show "\<exists>status. load_weights fs path ws = Exit status \<and> status \<noteq> 0 \<and> status mod 256 \<noteq> 0"
    by simp
next
  assume "files fs path \<noteq> None"
  then obtain f where "files fs path = Some f" by blast
  then show "\<exists>ws'. load_weights fs path ws = Return ws'"
    by (simp add: load_weights_def Let_def)
next
  assume "\<not> writable fs path"
  then have "save_weights fs path ws = Exit (- 1)" by (simp add: save_weights_def)
  then show "\<exists>status. save_weights fs path ws = Exit status \<and> status \<noteq> 0 \<and> status mod 256 \<noteq> 0"
    by simp
next
  assume "writable fs path"
  then show "\<exists>fs'. save_weights fs path ws = Return fs'"
    by (simp add: save_weights_def)
qed

theorem weight_file_not_open_exits_witness:
  "files no_files ''weights.bin'' = None \<and>
   (\<exists>status. load_weights no_files ''weights.bin'' [] = Exit status \<and> status \<noteq> 0 \<and> status mod 256 \<noteq> 0) \<and>
   files one_file ''weights.bin'' \<noteq> None \<and>
   (\<exists>ws'. load_weights one_file ''weights.bin'' [] = Return ws') \<and>
   \<not> writable no_files ''weights.bin'' \<and>
   (\<exists>status. save_weights no_files ''weights.bin'' [] = Exit status \<and> status \<noteq> 0 \<and> status mod 256 \<noteq> 0) \<and>
   writable one_file ''weights.bin'' \<and>
   (\<exists>fs'. save_weights one_file ''weights.bin'' [] = Return fs')"
proof -
  have "files no_files ''weights.bin'' = None" "\<not> writable no_files ''weights.bin''"
    by (simp_all add: no_files_def)
  moreover have "files one_file ''weights.bin'' \<noteq> None" "writable one_file ''weights.bin''"
    by (simp_all add: one_file_def)
  ultimately show ?thesis
    using weight_file_not_open_exits [of no_files "''weights.bin''" "[]"]
      weight_file_not_open_exits [of one_file "''weights.bin''" "[]"]
    by blast
qed

section \<open>A player without weight tables\<close>

lemma split_words_prefix:
  "split_words [] (''name=unknown role=unknown '' @ ''name=dummy role=player '' @ args)
     = [''name=unknown'', ''role=unknown'', ''name=dummy'', ''role=player''] @ split_words [] args"
  by (simp add: isspace_def)

lemma dom_foldl_meta:
  "dom (foldl (\<lambda>m pair. m(key_of pair \<mapsto> value_of pair)) m0 ps) = dom m0 \<union> key_of ` set ps"
  by (induction ps arbitrary: m0) auto

lemma dom_agent_player:
  "dom (agent (''name=dummy role=player '' @ args))
     = {''name'', ''role''} \<union> key_of ` set (split_words [] args)"
  unfolding agent_def split_words_prefix dom_foldl_meta
  by (auto simp: key_of_def)

lemma estimate_value_Nil: "estimate_value [] b = None"
  by (simp add: estimate_value_def table_get_def)

lemma adjust_value_Nil: "adjust_value a [] b target = None"
  by (simp add: adjust_value_def estimate_value_Nil)

lemma try_ops_Nil:
  "\<exists>op \<in> set ops. legal b op \<Longrightarrow> try_ops [] b ops best = None"
proof (induction ops arbitrary: best)
  case Nil
  then show ?case by simp
next
  case (Cons op ops)
  obtain best_op best_reward best_value best_after
    where best: "best = (best_op, best_reward, best_value, best_after)"
    by (cases best) auto
  show ?case
  proof (cases "legal b op")
    case True
    obtain r a where s: "slide op b = (r, a)" by (cases "slide op b") auto
    with True have "r \<noteq> - 1" by (simp add: legal_def)
    then show ?thesis
      by (simp add: best s estimate_value_Nil)
  next
    case False
    obtain r a where s: "slide op b = (r, a)" by (cases "slide op b") auto
    with False have r: "r = - 1" by (simp add: legal_def)
    from False Cons.prems have "\<exists>op \<in> set ops. legal b op" by simp
    from Cons.IH [OF this] show ?thesis
      by (simp add: best s r)
  qed
qed

text \<open>
  C10. A player constructed from an argument string with neither an \<^verbatim>\<open>init\<close> nor a
  \<^verbatim>\<open>load\<close> key has no weight table. On any board with a legal move its
  \<^verbatim>\<open>take_action\<close>, and with a learning rate other than 0 and a history that is not
  empty its \<^verbatim>\<open>close_episode\<close>, reads a table that is not there (the result \<open>None\<close>
  of the model).
\<close>

theorem player_without_tables:
  assumes "player_new stod fs args = Return p"
    and "\<forall>pair \<in> set (split_words [] args). key_of pair \<noteq> ''init'' \<and> key_of pair \<noteq> ''load''"
  shows "net p = [] \<and>
         (\<forall>b h. (\<exists>op \<in> {0, 1, 2, 3}. legal b op) \<longrightarrow> take_action (p\<lparr>history := h\<rparr>) b = None) \<and>
         (\<forall>h. alpha p \<noteq> 0 \<longrightarrow> h \<noteq> [] \<longrightarrow> close_episode (p\<lparr>history := h\<rparr>) = None)"
proof -
  let ?m = "agent (''name=dummy role=player '' @ args)"
  have "''init'' \<notin> dom ?m" "''load'' \<notin> dom ?m"
    using assms(2) unfolding dom_agent_player by auto
  then have m: "?m ''init'' = None" "?m ''load'' = None" by auto
  have net: "net p = []"
    using assms(1) unfolding player_new_def Let_def m
    by (auto split: option.splits)
  have "take_action (p\<lparr>history := h\<rparr>) b = None" if "\<exists>op \<in> {0, 1, 2, 3}. legal b op" for b h
  proof -
    from that have "\<exists>op \<in> set [0, 1, 2, 3]. legal b op" by simp
    then have "try_ops [] b [0, 1, 2, 3] (- 1, - 1, - 99999, replicate 16 0) = None"
      by (rule try_ops_Nil)
    moreover have "net (p\<lparr>history := h\<rparr>) = []" by (simp add: net)
    ultimately show ?thesis
      unfolding take_action_def by simp
  qed
  moreover have "close_episode (p\<lparr>history := h\<rparr>) = None" if "alpha p \<noteq> 0" "h \<noteq> []" for h
    using that by (simp add: close_episode_def net adjust_value_Nil)
  ultimately show ?thesis using net by blast
qed

theorem player_without_tables_witness:
  "(\<exists>p. player_new stod_half no_files ''alpha=0.5 seed=7'' = Return p \<and> net p = [] \<and> alpha p = 1/2 \<and>
        take_action p two_tiles = None \<and>
        close_episode (p\<lparr>history := [\<lparr>reward = 0, after = two_tiles\<rparr>]\<rparr>) = None) \<and>
   map key_of (split_words [] ''alpha=0.5 seed=7'') = [''alpha'', ''seed''] \<and>
   legal two_tiles 0"
proof -
  have w: "split_words [] ''alpha=0.5 seed=7'' = [''alpha=0.5'', ''seed=7'']"
    by (simp add: isspace_def)
  have k: "\<forall>pair \<in> set (split_words [] ''alpha=0.5 seed=7''). key_of pair \<noteq> ''init'' \<and> key_of pair \<noteq> ''load''"
    unfolding w by (simp add: key_of_def)
  have l: "legal two_tiles 0"
    by (simp add: legal_def slide_two_tiles)
  define p where "p = \<lparr>meta = agent (''name=dummy role=player '' @ ''alpha=0.5 seed=7''),
                        net = [], alpha = 1/2, history = []\<rparr>"
  have a: "agent (''name=dummy role=player '' @ ''alpha=0.5 seed=7'') ''alpha'' = Some ''0.5''"
          "agent (''name=dummy role=player '' @ ''alpha=0.5 seed=7'') ''init'' = None"
          "agent (''name=dummy role=player '' @ ''alpha=0.5 seed=7'') ''load'' = None"
    unfolding agent_def split_words_prefix w by (simp_all add: key_of_def value_of_def)
  have c: "player_new stod_half no_files ''alpha=0.5 seed=7'' = Return p"
    unfolding player_new_def Let_def a p_def by (simp add: stod_half_def)
  from player_without_tables [OF c k] l
  have "net p = []" "take_action (p\<lparr>history := history p\<rparr>) two_tiles = None"
       "alpha p \<noteq> 0 \<longrightarrow> close_episode (p\<lparr>history := [\<lparr>reward = 0, after = two_tiles\<rparr>]\<rparr>) = None"
    by blast+
  moreover have "alpha p = 1/2" by (simp add: p_def)
  ultimately show ?thesis using c l w by (simp add: key_of_def)
qed

section \<open>Placing a tile\<close>

lemma place_first_find:
  "place_first b draw s =
     (case find (\<lambda>pos. cell_at b pos = 0) s of
        None \<Rightarrow> No_action
      | Some pos \<Rightarrow> Place pos (if draw \<noteq> 0 then 1 else 2))"
  by (induction s) simp_all

lemma arrangements_set: "s \<in> arrangements \<Longrightarrow> set s = {0..<16}"
proof -
  assume "s \<in> arrangements"
  then have s: "length s = 16" "distinct s" "set s \<subseteq> {0..<16}"
    by (simp_all add: arrangements_def)
  then have "card (set s) = card {0..<16::nat}"
    by (simp add: distinct_card)
  with s(3) show ?thesis
    by (intro card_subset_eq) simp_all
qed

lemma card_arrangements: "card arrangements = fact 16"
proof -
  have "card arrangements = \<Prod>{card {0..<16::nat} - 16 + 1 .. card {0..<16::nat}}"
    unfolding arrangements_def by (rule card_lists_distinct_length_eq) simp_all
  also have "\<dots> = \<Prod>{1..16::nat}" by simp
  also have "\<dots> = fact 16" by (simp add: fact_prod)
  finally show ?thesis .
qed

lemma finite_arrangements: "finite arrangements"
  using card_arrangements by (intro card_ge_0_finite) simp

lemma find_empty_arrangement:
  assumes "s \<in> arrangements"
  shows "(empty_cells b = {} \<longrightarrow> find (\<lambda>pos. cell_at b pos = 0) s = None) \<and>
         (empty_cells b \<noteq> {} \<longrightarrow> (\<exists>pos \<in> empty_cells b. find (\<lambda>pos. cell_at b pos = 0) s = Some pos))"
proof (intro conjI impI)
  assume "empty_cells b = {}"
  then show "find (\<lambda>pos. cell_at b pos = 0) s = None"
    using arrangements_set [OF assms] by (auto simp: find_None_iff empty_cells_def)
next
  assume "empty_cells b \<noteq> {}"
  then obtain e where "e \<in> set s" "cell_at b e = 0"
    using arrangements_set [OF assms] by (auto simp: empty_cells_def)
  then have "find (\<lambda>pos. cell_at b pos = 0) s \<noteq> None"
    by (auto simp: find_None_iff)
  then obtain pos where f: "find (\<lambda>pos. cell_at b pos = 0) s = Some pos" by blast
  then have "pos \<in> set s" "cell_at b pos = 0"
    by (auto simp: find_Some_iff)
  with arrangements_set [OF assms] have "pos \<in> empty_cells b"
    by (simp add: empty_cells_def)
  with f show "\<exists>pos \<in> empty_cells b. find (\<lambda>pos. cell_at b pos = 0) s = Some pos" by blast
qed

text \<open>Exchanging two empty cells in every arrangement exchanges the cells found first.\<close>

lemma first_empty_same_card:
  assumes "e1 \<in> empty_cells b" "e2 \<in> empty_cells b"
  shows "card {s \<in> arrangements. find (\<lambda>pos. cell_at b pos = 0) s = Some e1}
       = card {s \<in> arrangements. find (\<lambda>pos. cell_at b pos = 0) s = Some e2}"
proof -
  define P where "P pos \<longleftrightarrow> cell_at b pos = 0" for pos
  define \<tau> where "\<tau> x = (if x = e1 then e2 else if x = e2 then e1 else x)" for x
  have e: "P e1" "P e2" "e1 < 16" "e2 < 16"
    using assms by (simp_all add: empty_cells_def P_def)
  have inv: "\<tau> (\<tau> x) = x" for x by (simp add: \<tau>_def)
  have P: "P (\<tau> x) = P x" for x using e by (simp add: \<tau>_def)
  have lt: "\<tau> x < 16 \<longleftrightarrow> x < 16" for x using e by (simp add: \<tau>_def)
  have "inj \<tau>" by (rule inj_on_inverseI [of _ \<tau>]) (simp add: inv)
  then have dist: "distinct (map \<tau> s) = distinct s" for s
    by (simp add: distinct_map inj_on_def)
  have find: "find P (map \<tau> s) = map_option \<tau> (find P s)" for s
    by (induction s) (simp_all add: P)
  have arr: "map \<tau> s \<in> arrangements" if "s \<in> arrangements" for s
    using that by (auto simp: arrangements_def dist lt)
  have t: "\<tau> e1 = e2" "\<tau> e2 = e1" by (simp_all add: \<tau>_def)
  have "bij_betw (map \<tau>) {s \<in> arrangements. find P s = Some e1} {s \<in> arrangements. find P s = Some e2}"
    by (rule bij_betw_byWitness [where f' = "map \<tau>"])
      (auto simp: arr find t inv o_def)
  then show ?thesis
    unfolding P_def by (rule bij_betw_same_card)
qed

lemma first_empty_uniform:
  assumes "e \<in> empty_cells b"
  shows "card {s \<in> arrangements. find (\<lambda>pos. cell_at b pos = 0) s = Some e} * card (empty_cells b)
           = fact 16"
proof -
  let ?A = "\<lambda>e. {s \<in> arrangements. find (\<lambda>pos. cell_at b pos = 0) s = Some e}"
  have fin: "finite (empty_cells b)" by (simp add: empty_cells_def)
  have ne: "empty_cells b \<noteq> {}" using assms by blast
  have "arrangements = (\<Union>e' \<in> empty_cells b. ?A e')"
    using find_empty_arrangement [of _ b] ne by blast
  then have "card arrangements = card (\<Union>e' \<in> empty_cells b. ?A e')" by simp
  also have "\<dots> = (\<Sum>e' \<in> empty_cells b. card (?A e'))"
    by (rule card_UN_disjoint) (use fin finite_arrangements in auto)
  also have "\<dots> = (\<Sum>e' \<in> empty_cells b. card (?A e))"
    by (rule sum.cong) (simp_all add: first_empty_same_card [OF _ assms])
  also have "\<dots> = card (?A e) * card (empty_cells b)" by simp
  finally show ?thesis by (simp add: card_arrangements)
qed

lemma shuffle_arrangement:
  assumes "space env \<in> arrangements" "mset shuffled = mset (space env)"
  shows "shuffled \<in> arrangements"
proof -
  have "length shuffled = length (space env)"
    using assms(2) by (rule mset_eq_length)
  moreover have "distinct shuffled \<longleftrightarrow> distinct (space env)"
    using assms(2) by (rule mset_eq_imp_distinct_iff)
  moreover have "set shuffled = set (space env)"
    using assms(2) by (rule mset_eq_setD)
  ultimately show ?thesis
    using assms(1) by (simp add: arrangements_def)
qed

lemma rndenv_new_arrangement: "space rndenv_new \<in> arrangements"
  by (simp add: rndenv_new_def arrangements_def)

text \<open>
  C8. Whatever the shuffle leaves and whatever number is drawn,
  \<^verbatim>\<open>rndenv::take_action\<close> returns no action on a board without an empty cell, and
  otherwise a placement on an empty cell of the tile 1 when the draw is not 0 and of
  the tile 2 when it is 0. Of the ten draws nine give the tile 1 and one gives the
  tile 2, and every empty cell is the cell chosen in the same number of the \<open>16!\<close>
  arrangements: with a fair shuffle and a uniform draw, the cell is uniform among
  the empty cells and the tile is 1 with probability 9/10 and 2 with probability 1/10.
\<close>

theorem rndenv_take_action_places:
  assumes "space env \<in> arrangements" "mset shuffled = mset (space env)"
  shows "(empty_cells b = {} \<longrightarrow> fst (rndenv_take_action shuffled draw env b) = No_action) \<and>
         (empty_cells b \<noteq> {} \<longrightarrow>
            (\<exists>pos \<in> empty_cells b. fst (rndenv_take_action shuffled draw env b)
                                      = Place pos (if draw = 0 then 2 else 1)) \<and>
            card {d \<in> {0..9}. \<exists>pos. fst (rndenv_take_action shuffled d env b) = Place pos 1} = 9 \<and>
            card {d \<in> {0..9}. \<exists>pos. fst (rndenv_take_action shuffled d env b) = Place pos 2} = 1) \<and>
         (\<forall>e \<in> empty_cells b.
            card {s \<in> arrangements. \<exists>tile. fst (rndenv_take_action s draw env b) = Place e tile}
              * card (empty_cells b) = fact 16) \<and>
         space (snd (rndenv_take_action shuffled draw env b)) \<in> arrangements"
proof (intro conjI impI ballI)
  note s = shuffle_arrangement [OF assms]
  note f = find_empty_arrangement [OF s, of b]
  show "space (snd (rndenv_take_action shuffled draw env b)) \<in> arrangements"
    using s by (simp add: rndenv_take_action_def)
  {
    assume "empty_cells b = {}"
    with f show "fst (rndenv_take_action shuffled draw env b) = No_action"
      by (simp add: rndenv_take_action_def place_first_find)
  next
    assume "empty_cells b \<noteq> {}"
    with f obtain pos where pos: "pos \<in> empty_cells b"
      "find (\<lambda>pos. cell_at b pos = 0) shuffled = Some pos" by blast
    then have a: "fst (rndenv_take_action shuffled d env b) = Place pos (if d \<noteq> 0 then 1 else 2)" for d
      by (simp add: rndenv_take_action_def place_first_find)
    from pos(1) a [of draw]
    show "\<exists>pos \<in> empty_cells b. fst (rndenv_take_action shuffled draw env b)
                                  = Place pos (if draw = 0 then 2 else 1)"
      by auto
    have "{d \<in> {0..9}. \<exists>pos. fst (rndenv_take_action shuffled d env b) = Place pos 1} = {1..9}"
      by (auto simp: a)
    then show "card {d \<in> {0..9}. \<exists>pos. fst (rndenv_take_action shuffled d env b) = Place pos 1} = 9"
      by simp
    have "{d \<in> {0..9}. \<exists>pos. fst (rndenv_take_action shuffled d env b) = Place pos 2} = {0}"
      by (auto simp: a)
    then show "card {d \<in> {0..9}. \<exists>pos. fst (rndenv_take_action shuffled d env b) = Place pos 2} = 1"
      by simp
  next
    fix e assume e: "e \<in> empty_cells b"
    have "(\<exists>tile. fst (rndenv_take_action s draw env b) = Place e tile)
            \<longleftrightarrow> find (\<lambda>pos. cell_at b pos = 0) s = Some e" for s
      by (auto simp: rndenv_take_action_def place_first_find split: option.splits)
    then show "card {s \<in> arrangements. \<exists>tile. fst (rndenv_take_action s draw env b) = Place e tile}
                 * card (empty_cells b) = fact 16"
      using first_empty_uniform [OF e] by simp
  }
qed

lemma empty_cells_filter:
  "empty_cells b = set (filter (\<lambda>pos. cell_at b pos = 0) [0..<16])"
  by (auto simp: empty_cells_def)

theorem rndenv_take_action_places_witness:
  "space rndenv_new \<in> arrangements \<and>
   mset [5, 0, 1, 2, 3, 4, 6, 7, 8, 9, 10, 11, 12, 13, 14, 15] = mset (space rndenv_new) \<and>
   empty_cells two_tiles \<noteq> {} \<and> 0 \<in> empty_cells two_tiles \<and>
   fst (rndenv_take_action [5, 0, 1, 2, 3, 4, 6, 7, 8, 9, 10, 11, 12, 13, 14, 15] 0 rndenv_new two_tiles)
     = Place 0 2 \<and>
   card {s \<in> arrangements. \<exists>tile. fst (rndenv_take_action s 0 rndenv_new two_tiles) = Place 0 tile}
     * card (empty_cells two_tiles) = fact 16 \<and>
   empty_cells full_board = {} \<and>
   fst (rndenv_take_action [5, 0, 1, 2, 3, 4, 6, 7, 8, 9, 10, 11, 12, 13, 14, 15] 0 rndenv_new full_board)
     = No_action"
proof -
  have m: "mset [5, 0, 1, 2, 3, 4, 6, 7, 8, 9, 10, 11, 12, 13, 14, 15] = mset (space rndenv_new)"
    by (simp add: rndenv_new_def)
  have e: "0 \<in> empty_cells two_tiles"
    by (simp add: empty_cells_def cell_at_def two_tiles_def)
  have a: "fst (rndenv_take_action [5, 0, 1, 2, 3, 4, 6, 7, 8, 9, 10, 11, 12, 13, 14, 15] 0 rndenv_new two_tiles)
     = Place 0 2"
    by (simp add: rndenv_take_action_def cell_at_def two_tiles_def)
  have f: "empty_cells full_board = {}"
    unfolding empty_cells_filter by (simp add: cell_at_def full_board_def upt_rec)
  from rndenv_take_action_places [OF rndenv_new_arrangement m, of two_tiles 0] e
  have "card {s \<in> arrangements. \<exists>tile. fst (rndenv_take_action s 0 rndenv_new two_tiles) = Place 0 tile}
     * card (empty_cells two_tiles) = fact 16"
    by blast
  moreover from rndenv_take_action_places [OF rndenv_new_arrangement m, of full_board 0] f
  have "fst (rndenv_take_action [5, 0, 1, 2, 3, 4, 6, 7, 8, 9, 10, 11, 12, 13, 14, 15] 0 rndenv_new full_board)
     = No_action"
    by blast
  ultimately show ?thesis
    using rndenv_new_arrangement m e a f by blast
qed

end
